theory Spec2Isabelle
  imports Main "HOL-Library.Sublist"
begin

section \<open>JavaScript values used by PartyScreen\<close>

text \<open>
  Arrays and objects are heap values: two of them are the same value for React
  (\<^verbatim>\<open>Object.is\<close>, used to compare hook dependencies) only when they are the same
  allocation. An object is therefore a pair of its address and its contents. Addresses
  of objects created outside the component (parsed snapshots, the socket, arrays built by
  child components) are \<open>External\<close>; the component's own allocations are \<open>Local\<close>,
  numbered by a counter kept with the component instance.
\<close>

datatype addr = External nat | Local nat

datatype 'a obj = Obj (addr_of: addr) (val_of: 'a)

text \<open>
  Modelled from the spec: the types \<^verbatim>\<open>Restaurant\<close> and \<^verbatim>\<open>Party\<close> of \<^verbatim>\<open>types\<close>, which is not
  among the sources. A Restaurant has an \<^verbatim>\<open>id\<close> and an \<^verbatim>\<open>image_url\<close>; its descriptive
  fields, which only the presentation reads, are left out. A Party has the six fields
  that PartyScreen reads, each of which may be undefined, since the screen itself builds
  \<^verbatim>\<open>{} as Party\<close>. The field \<^verbatim>\<open>id\<close> is renamed in both records, and the fields of a Party
  carry the prefix \<open>party\<close>.
\<close>

record Restaurant =
  restaurant_id :: string
  image_url :: string

type_synonym RestaurantArray = "Restaurant list obj"

record Party =
  party_id :: "string option"
  party_status :: "string option"
  party_restaurants :: "RestaurantArray option"
  party_current :: "RestaurantArray option"
  party_total :: "int option"
  party_error :: "string option"

definition empty_Party :: Party where
  "empty_Party =
     \<lparr>party_id = None, party_status = None, party_restaurants = None,
      party_current = None, party_total = None, party_error = None\<rparr>"

text \<open>Optional chaining \<^verbatim>\<open>party?.field\<close> on the optional \<^verbatim>\<open>party\<close> prop.\<close>

definition opt_chain :: "Party obj option \<Rightarrow> (Party \<Rightarrow> 'a option) \<Rightarrow> 'a option" where
  "opt_chain party field = (case party of None \<Rightarrow> None | Some p \<Rightarrow> field (val_of p))"

subsection \<open>JSON.stringify on an optional array of restaurants\<close>

definition hex_digit :: "nat \<Rightarrow> char" where
  "hex_digit n = ''0123456789abcdef'' ! n"

text \<open>The escapes of \<^verbatim>\<open>JSON.stringify\<close>; \<open>CHR 0x22\<close> is the double quote, \<open>CHR 0x5C\<close> the backslash.\<close>

definition quote_char :: "char \<Rightarrow> string" where
  "quote_char c =
     (if c = CHR 0x22 then [CHR 0x5C, CHR 0x22]
      else if c = CHR 0x5C then [CHR 0x5C, CHR 0x5C]
      else if c = CHR 0x08 then [CHR 0x5C, CHR ''b'']
      else if c = CHR 0x09 then [CHR 0x5C, CHR ''t'']
      else if c = CHR 0x0A then [CHR 0x5C, CHR ''n'']
      else if c = CHR 0x0C then [CHR 0x5C, CHR ''f'']
      else if c = CHR 0x0D then [CHR 0x5C, CHR ''r'']
      else if (of_char c :: nat) < 32
        then [CHR 0x5C, CHR ''u'', CHR ''0'', CHR ''0'',
              hex_digit ((of_char c :: nat) div 16), hex_digit ((of_char c :: nat) mod 16)]
      else [c])"

definition quote_string :: "string \<Rightarrow> string" where
  "quote_string s = [CHR 0x22] @ concat (map quote_char s) @ [CHR 0x22]"

text \<open>
  A restaurant is serialised with its keys in the order \<^verbatim>\<open>id\<close>, \<^verbatim>\<open>image_url\<close>; an array is
  its elements between brackets, separated by commas.
\<close>

definition stringify_Restaurant :: "Restaurant \<Rightarrow> string" where
  "stringify_Restaurant r =
     ''{'' @ quote_string ''id'' @ '':'' @ quote_string (restaurant_id r) @ '','' @
     quote_string ''image_url'' @ '':'' @ quote_string (image_url r) @ ''}''"

fun join_comma :: "string list \<Rightarrow> string" where
  "join_comma [] = []"
| "join_comma [s] = s"
| "join_comma (s # t # ts) = s @ '','' @ join_comma (t # ts)"

text \<open>\<^verbatim>\<open>JSON.stringify(undefined)\<close> is \<^verbatim>\<open>undefined\<close>, not a string.\<close>

definition JSON_stringify :: "RestaurantArray option \<Rightarrow> string option" where
  "JSON_stringify v =
     (case v of
        None \<Rightarrow> None
      | Some a \<Rightarrow> Some (''['' @ join_comma (map stringify_Restaurant (val_of a)) @ '']''))"

section \<open>The component\<close>

datatype Message = Request_more | Quit | Swipe_right string

datatype Action = Ws_send Message | Navigate string | Set_party "Party obj"

datatype js_error = TypeError

datatype View =
    Waiting "string option"
  | Exhausted
  | Loading
  | Active RestaurantArray

text \<open>
  The props: \<^verbatim>\<open>party\<close> and the socket \<^verbatim>\<open>ws\<close> (its address: the component only sends on it
  and lists it as a dependency). \<^verbatim>\<open>navigation\<close> and \<^verbatim>\<open>setParty\<close> are only called, and the
  calls are returned as actions. \<open>ios\<close> stands for \<^verbatim>\<open>Platform.OS === 'ios'\<close>.
\<close>

record Props =
  party :: "Party obj option"
  ws :: addr
  ios :: bool

text \<open>
  What the component instance keeps between renders: the three \<^verbatim>\<open>useState\<close> cells, the
  cell of \<^verbatim>\<open>usePrevious\<close>, the dependencies each \<^verbatim>\<open>useEffect\<close> saw at the last render
  (none before the first), and the allocation counter.
\<close>

record Instance =
  finished :: bool
  restaurants :: "RestaurantArray option"
  details :: "Restaurant option"
  previous :: "Party obj"
  request_deps :: "(addr option \<times> addr) option"
  merge_deps :: "(addr option \<times> addr \<times> addr option) option"
  heap :: nat

text \<open>
  Modelled from the spec: \<^verbatim>\<open>usePrevious\<close> of \<^verbatim>\<open>utils/hooks\<close>, which is not among the
  sources. It returns the Party value observed at the previous render and retains the
  one it is given; what it returns at the first render is the \<open>previous\<close> cell of the
  initial instance, a parameter.
\<close>

definition usePrevious :: "Party obj \<Rightarrow> Instance \<Rightarrow> Party obj \<times> Instance" where
  "usePrevious v inst = (previous inst, inst\<lparr>previous := v\<rparr>)"

definition initial_instance :: "Party obj \<Rightarrow> Instance" where
  "initial_instance p0 =
     \<lparr>finished = False, restaurants = None, details = None, previous = p0,
      request_deps = None, merge_deps = None, heap = 0\<rparr>"

subsection \<open>Rendering\<close>

text \<open>\<^verbatim>\<open>if (party?.error) Alert.alert(..., party.error, ...)\<close>: the message shown, if any.\<close>

definition error_alert :: "Party obj option \<Rightarrow> string option" where
  "error_alert p =
     (case opt_chain p party_error of
        None \<Rightarrow> None
      | Some e \<Rightarrow> if e = [] then None else Some e)"

text \<open>
  The \<^verbatim>\<open>uri\<close> of the placeholder image, evaluated on iOS only:
  \<^verbatim>\<open>restaurants?.length ? restaurants[0].image_url : party.restaurants[0].image_url\<close>.
  Reading \<^verbatim>\<open>image_url\<close> of the first element of an empty array throws.
\<close>

definition placeholder_uri :: "RestaurantArray option \<Rightarrow> RestaurantArray \<Rightarrow> js_error + string" where
  "placeholder_uri rs prs =
     (case (case rs of None \<Rightarrow> [] | Some a \<Rightarrow> val_of a) of
        r # _ \<Rightarrow> Inr (image_url r)
      | [] \<Rightarrow> (case val_of prs of r # _ \<Rightarrow> Inr (image_url r) | [] \<Rightarrow> Inl TypeError))"

text \<open>The cascade of early returns of the component body, in the order of the source.\<close>

definition render_view ::
  "bool \<Rightarrow> Party obj option \<Rightarrow> bool \<Rightarrow> RestaurantArray option \<Rightarrow> js_error + View" where
  "render_view on_ios p fin rs =
     (if opt_chain p party_status = Some ''waiting'' then Inr (Waiting (opt_chain p party_id))
      else if fin \<or> opt_chain p party_total = Some 0 then Inr Exhausted
      else
        (case opt_chain p party_restaurants of
           None \<Rightarrow> Inr Loading
         | Some prs \<Rightarrow>
             (case (if on_ios then placeholder_uri rs prs else Inr []) of
                Inl e \<Rightarrow> Inl e
              | Inr _ \<Rightarrow> Inr (Active (case rs of None \<Rightarrow> prs | Some a \<Rightarrow> a)))))"

subsection \<open>Effects\<close>

text \<open>The body of the first effect: request more cards with three remaining.\<close>

definition request_more_effect :: "RestaurantArray option \<Rightarrow> Message list" where
  "request_more_effect rs =
     (case rs of
        None \<Rightarrow> []
      | Some a \<Rightarrow> if length (val_of a) = 3 then [Request_more] else [])"

text \<open>
  The body of the second effect. The result is the argument of \<^verbatim>\<open>setRestaurants\<close> when
  it is called: the spread \<^verbatim>\<open>[...restaurants, ...party?.current]\<close>, a new array at the
  address \<open>fresh\<close>.
\<close>

definition merge_effect ::
  "Party obj \<Rightarrow> Party obj option \<Rightarrow> RestaurantArray option \<Rightarrow> addr \<Rightarrow> RestaurantArray option" where
  "merge_effect prevState p rs fresh =
     (if JSON_stringify (party_current (val_of prevState)) \<noteq> JSON_stringify (opt_chain p party_current)
      then
        (case opt_chain p party_current of
           None \<Rightarrow> None
         | Some c \<Rightarrow>
             (if length (val_of c) = 0 then None
              else
                (case rs of
                   None \<Rightarrow> None
                 | Some a \<Rightarrow> Some (Obj fresh (val_of a @ val_of c)))))
      else None)"

subsection \<open>One render with its effects\<close>

record Output =
  alert :: "string option"
  view :: "js_error + View"
  sent :: "Message list"
  rerender :: bool

text \<open>
  \<open>commit\<close> is one run of the body of a mounted component followed by its effects. An
  effect runs at the first render and whenever one of its dependencies is another value
  than at the previous render. \<open>rerender\<close> tells that an effect has set state, so that
  React renders again. A render that throws runs no effect and commits nothing: React
  then unmounts the component, and the instance returned is the state it had at that
  moment, which is not rendered again.
\<close>

definition commit :: "Props \<Rightarrow> Instance \<Rightarrow> Output \<times> Instance" where
  "commit props inst =
     (let p = party props;
          rs = restaurants inst;
          al = error_alert p;
          (arg, heap1) =
             (case p of
                Some q \<Rightarrow> (q, heap inst)
              | None \<Rightarrow> (Obj (Local (heap inst)) empty_Party, Suc (heap inst)));
          (prevState, inst1) = usePrevious arg inst
      in
        (case render_view (ios props) p (finished inst) rs of
           Inl e \<Rightarrow> (\<lparr>alert = al, view = Inl e, sent = [], rerender = False\<rparr>, inst)
         | Inr v \<Rightarrow>
             (let rdeps = (map_option addr_of rs, ws props);
                  msgs = (if request_deps inst = Some rdeps then [] else request_more_effect rs);
                  mdeps = (map_option addr_of p, addr_of prevState, map_option addr_of rs);
                  res = (if merge_deps inst = Some mdeps then None
                         else merge_effect prevState p rs (Local heap1))
              in
                (\<lparr>alert = al, view = Inr v, sent = msgs, rerender = (res \<noteq> None)\<rparr>,
                 inst1\<lparr>restaurants := (case res of None \<Rightarrow> rs | Some a \<Rightarrow> Some a),
                       request_deps := Some rdeps,
                       merge_deps := Some mdeps,
                       heap := (case res of None \<Rightarrow> heap1 | Some _ \<Rightarrow> Suc heap1)\<rparr>))))"

text \<open>
  \<open>tick\<close> follows a render by the render its effects ask for. The second render asks for
  no third one (\<open>commit_commit_stable\<close> below), so two renders settle the component.
\<close>

definition tick :: "Props \<Rightarrow> Instance \<Rightarrow> Output \<times> Instance" where
  "tick props inst =
     (let (out1, inst1) = commit props inst
      in if rerender out1
         then (let (out2, inst2) = commit props inst1
               in (out2\<lparr>sent := sent out1 @ sent out2\<rparr>, inst2))
         else (out1, inst1))"

text \<open>
  A sequence of pushed snapshots, each arriving as a new \<^verbatim>\<open>party\<close> prop. It ends at a
  render that throws, the component being unmounted then.
\<close>

fun pushes :: "addr \<Rightarrow> bool \<Rightarrow> Party obj option list \<Rightarrow> Instance \<Rightarrow> Instance" where
  "pushes w i [] inst = inst"
| "pushes w i (p # ps) inst =
     (case view (fst (tick \<lparr>party = p, ws = w, ios = i\<rparr> inst)) of
        Inl e \<Rightarrow> snd (tick \<lparr>party = p, ws = w, ios = i\<rparr> inst)
      | Inr v \<Rightarrow> pushes w i ps (snd (tick \<lparr>party = p, ws = w, ios = i\<rparr> inst)))"

subsection \<open>State setters and event handlers\<close>

text \<open>The setters handed to \<^verbatim>\<open>SwipeWindow\<close> and \<^verbatim>\<open>Details\<close>.\<close>

definition setRestaurants :: "RestaurantArray option \<Rightarrow> Instance \<Rightarrow> Instance" where
  "setRestaurants v inst = inst\<lparr>restaurants := v\<rparr>"

definition setFinished :: "bool \<Rightarrow> Instance \<Rightarrow> Instance" where
  "setFinished v inst = inst\<lparr>finished := v\<rparr>"

definition setDetails :: "Restaurant option \<Rightarrow> Instance \<Rightarrow> Instance" where
  "setDetails v inst = inst\<lparr>details := v\<rparr>"

text \<open>The \<^verbatim>\<open>onPress\<close> of the Start Over button.\<close>

definition start_over :: "Props \<Rightarrow> Instance \<Rightarrow> Action list \<times> Instance" where
  "start_over props inst =
     ([], setRestaurants (opt_chain (party props) party_restaurants) (setFinished False inst))"

text \<open>The \<^verbatim>\<open>onPress\<close> of the OK button of the error alert.\<close>

definition error_ok :: "Instance \<Rightarrow> Action list \<times> Instance" where
  "error_ok inst =
     ([Navigate ''Join'', Set_party (Obj (Local (heap inst)) empty_Party)],
      inst\<lparr>heap := Suc (heap inst)\<rparr>)"

text \<open>The \<^verbatim>\<open>onPress\<close> of the OK button of the exit confirmation raised by the back button.\<close>

definition back_ok :: "Instance \<Rightarrow> Action list \<times> Instance" where
  "back_ok inst =
     ([Ws_send Quit, Navigate ''Home'', Set_party (Obj (Local (heap inst)) empty_Party)],
      inst\<lparr>heap := Suc (heap inst)\<rparr>)"

definition handleSwipeRight :: "string \<Rightarrow> Action list" where
  "handleSwipeRight rid = [Ws_send (Swipe_right rid)]"

text \<open>The items of the Local Queue, none while the state is undefined.\<close>

definition queue_items :: "Instance \<Rightarrow> Restaurant list" where
  "queue_items inst = (case restaurants inst of None \<Rightarrow> [] | Some a \<Rightarrow> val_of a)"

text \<open>The batch a snapshot carries: the items of \<^verbatim>\<open>party?.current\<close>, none when it is undefined.\<close>

definition batch :: "Party obj option \<Rightarrow> Restaurant list" where
  "batch p = (case opt_chain p party_current of None \<Rightarrow> [] | Some c \<Rightarrow> val_of c)"

subsection \<open>Example data\<close>

definition rest_a :: Restaurant where
  "rest_a = \<lparr>restaurant_id = ''a'', image_url = ''img/a''\<rparr>"

definition rest_b :: Restaurant where
  "rest_b = \<lparr>restaurant_id = ''b'', image_url = ''img/b''\<rparr>"

definition rest_c :: Restaurant where
  "rest_c = \<lparr>restaurant_id = ''c'', image_url = ''img/c''\<rparr>"

definition rest_d :: Restaurant where
  "rest_d = \<lparr>restaurant_id = ''d'', image_url = ''img/d''\<rparr>"

text \<open>A pushed snapshot of an active party whose \<^verbatim>\<open>current\<close> is the batch \<open>c\<close>.\<close>

definition batch_push :: "nat \<Rightarrow> Restaurant list \<Rightarrow> Party obj option" where
  "batch_push n c =
     Some (Obj (External n)
       (empty_Party\<lparr>party_status := Some ''active'',
                    party_current := Some (Obj (External (Suc n)) c)\<rparr>))"

text \<open>A new component whose Local Queue a child has set to the array \<open>q\<close>.\<close>

definition seeded :: "Restaurant list \<Rightarrow> Instance" where
  "seeded q =
     setRestaurants (Some (Obj (External 1) q)) (initial_instance (Obj (External 0) empty_Party))"

text \<open>The props of a render with the snapshot \<open>p\<close>, a new object at address \<open>n\<close>, on iOS.\<close>

definition snapshot :: "nat \<Rightarrow> Party \<Rightarrow> Props" where
  "snapshot n p = \<lparr>party = Some (Obj (External n) p), ws = External 0, ios = True\<rparr>"

text \<open>An active party with the code AB12, the restaurants \<open>rs\<close> and the total \<open>n\<close>.\<close>

definition active_party :: "Restaurant list \<Rightarrow> int \<Rightarrow> Party" where
  "active_party rs n =
     empty_Party\<lparr>party_id := Some ''AB12'', party_status := Some ''active'',
                 party_restaurants := Some (Obj (External 2) rs), party_total := Some n\<rparr>"

text \<open>
  A component that has rendered a queue of four cards, after which a child has set the
  queue to a new array of the last three.
\<close>

definition after_swipe :: Instance where
  "after_swipe =
     setRestaurants (Some (Obj (External 5) [rest_b, rest_c, rest_d]))
       (snd (tick (snapshot 10 (active_party [rest_a, rest_b, rest_c, rest_d] 4))
          (seeded [rest_a, rest_b, rest_c, rest_d])))"

text \<open>
  A component mounted with a party of four restaurants, after which a child has set the
  queue to a new array of the last three.
\<close>

definition mounted_then_swiped :: Instance where
  "mounted_then_swiped =
     setRestaurants (Some (Obj (External 5) [rest_b, rest_c, rest_d]))
       (snd (tick (snapshot 10 (active_party [rest_a, rest_b, rest_c, rest_d] 4))
          (initial_instance (Obj (External 0) empty_Party))))"

text \<open>
  A component mounted with a party of three restaurants, after which a child has emptied
  the queue and set the finished flag.
\<close>

definition swiped_through :: Instance where
  "swiped_through =
     setFinished True (setRestaurants (Some (Obj (External 6) []))
       (snd (tick (snapshot 10 (active_party [rest_b, rest_c, rest_d] 3))
          (initial_instance (Obj (External 0) empty_Party)))))"

text \<open>A snapshot that carries the batch \<open>[a]\<close> together with an error.\<close>

definition error_push :: Props where
  "error_push =
     snapshot 20 ((active_party [rest_a, rest_b, rest_c, rest_d] 4)
       \<lparr>party_current := Some (Obj (External 21) [rest_a]),
        party_error := Some ''party not found''\<rparr>)"

text \<open>A snapshot that carries the batch \<open>[a]\<close> together with the total 0.\<close>

definition exhausting_push :: Props where
  "exhausting_push =
     snapshot 20 ((active_party [rest_a, rest_b, rest_c, rest_d] 0)
       \<lparr>party_current := Some (Obj (External 21) [rest_a])\<rparr>)"

text \<open>The same props with \<^verbatim>\<open>party.error\<close> set to \<open>x\<close>, in the same Party object.\<close>

definition set_error :: "string option \<Rightarrow> Props \<Rightarrow> Props" where
  "set_error x props =
     props\<lparr>party :=
       map_option (\<lambda>q. Obj (addr_of q) ((val_of q)\<lparr>party_error := x\<rparr>)) (party props)\<rparr>"

subsection \<open>The comparison described by the specification\<close>

text \<open>
  The specification describes the test for a new batch as structural equality over the
  whole Party value. This is that equality, on contents, to be compared with the test
  in \<open>merge_effect\<close>.
\<close>

definition Party_deep_equal :: "Party \<Rightarrow> Party \<Rightarrow> bool" where
  "Party_deep_equal a b =
     (party_id a = party_id b \<and> party_status a = party_status b \<and>
      map_option val_of (party_restaurants a) = map_option val_of (party_restaurants b) \<and>
      map_option val_of (party_current a) = map_option val_of (party_current b) \<and>
      party_total a = party_total b \<and> party_error a = party_error b)"

lemmas eval_defs =
  tick_def commit_def usePrevious_def Let_def render_view_def opt_chain_def merge_effect_def
  JSON_stringify_def stringify_Restaurant_def quote_string_def quote_char_def
  request_more_effect_def error_alert_def placeholder_uri_def
  setRestaurants_def setFinished_def setDetails_def start_over_def error_ok_def back_ok_def
  initial_instance_def empty_Party_def queue_items_def batch_def
  rest_a_def rest_b_def rest_c_def rest_d_def batch_push_def seeded_def
  snapshot_def active_party_def Party_deep_equal_def
  mounted_then_swiped_def swiped_through_def error_push_def exhausting_push_def set_error_def

section \<open>Properties of one render\<close>

lemma commit_alert: "alert (fst (commit props inst)) = error_alert (party props)"
  by (simp add: commit_def usePrevious_def Let_def split: sum.splits option.splits prod.splits)

lemma commit_view:
  "view (fst (commit props inst)) =
     render_view (ios props) (party props) (finished inst) (restaurants inst)"
  by (simp add: commit_def usePrevious_def Let_def split: sum.splits option.splits prod.splits)

lemma commit_sent:
  "sent (fst (commit props inst)) =
     (case render_view (ios props) (party props) (finished inst) (restaurants inst) of
        Inl e \<Rightarrow> []
      | Inr v \<Rightarrow>
          if request_deps inst = Some (map_option addr_of (restaurants inst), ws props) then []
          else request_more_effect (restaurants inst))"
  by (simp add: commit_def usePrevious_def Let_def split: sum.splits option.splits prod.splits)

lemma commit_finished: "finished (snd (commit props inst)) = finished inst"
  by (simp add: commit_def usePrevious_def Let_def split: sum.splits option.splits prod.splits)

lemma commit_details: "details (snd (commit props inst)) = details inst"
  by (simp add: commit_def usePrevious_def Let_def split: sum.splits option.splits prod.splits)

lemma commit_throws:
  assumes "view (fst (commit props inst)) = Inl e"
  shows "snd (commit props inst) = inst" and "\<not> rerender (fst (commit props inst))"
  using assms
  by (auto simp add: commit_def usePrevious_def Let_def
      split: sum.splits option.splits prod.splits if_splits)

lemma commit_no_rerender:
  "\<not> rerender (fst (commit props inst)) \<Longrightarrow>
     restaurants (snd (commit props inst)) = restaurants inst"
  by (auto simp add: commit_def usePrevious_def Let_def
      split: sum.splits option.splits prod.splits)

lemma merge_effect_Some:
  "merge_effect prev p rs fresh = Some r \<Longrightarrow>
     \<exists>a c. rs = Some a \<and> opt_chain p party_current = Some c \<and> val_of c \<noteq> [] \<and>
       JSON_stringify (party_current (val_of prev)) \<noteq> JSON_stringify (Some c) \<and>
       r = Obj fresh (val_of a @ val_of c)"
  by (auto simp add: merge_effect_def split: if_splits option.splits)

lemma merge_effect_same:
  "JSON_stringify (party_current (val_of prev)) = JSON_stringify (opt_chain p party_current) \<Longrightarrow>
     merge_effect prev p rs fresh = None"
  by (simp add: merge_effect_def)

text \<open>What the second effect did in a render, up to the address of the new array.\<close>

lemma commit_res:
  "\<exists>f. rerender (fst (commit props inst)) =
         (view (fst (commit props inst)) \<noteq> Inl TypeError \<and>
          merge_deps inst \<noteq> Some (map_option addr_of (party props), addr_of (previous inst),
             map_option addr_of (restaurants inst)) \<and>
          merge_effect (previous inst) (party props) (restaurants inst) f \<noteq> None) \<and>
       restaurants (snd (commit props inst)) =
         (if rerender (fst (commit props inst))
          then merge_effect (previous inst) (party props) (restaurants inst) f
          else restaurants inst)"
proof (cases "render_view (ios props) (party props) (finished inst) (restaurants inst)")
  case (Inl e)
  then show ?thesis
    by (cases e) (simp add: commit_def usePrevious_def Let_def split: option.splits prod.splits)
next
  case (Inr v)
  show ?thesis
  proof (cases "party props")
    case None
    with Inr show ?thesis
      by (intro exI[of _ "Local (Suc (heap inst))"])
         (auto simp add: commit_def usePrevious_def Let_def)
  next
    case (Some q)
    with Inr show ?thesis
      by (intro exI[of _ "Local (heap inst)"])
         (auto simp add: commit_def usePrevious_def Let_def)
  qed
qed

lemma commit_rerender:
  assumes "rerender (fst (commit props inst))"
  shows "\<exists>a c f. restaurants inst = Some a \<and> opt_chain (party props) party_current = Some c \<and>
       val_of c \<noteq> [] \<and>
       JSON_stringify (party_current (val_of (previous inst))) \<noteq> JSON_stringify (Some c) \<and>
       restaurants (snd (commit props inst)) = Some (Obj f (val_of a @ val_of c))"
proof -
  from commit_res[of props inst] assms obtain f r where
    "merge_effect (previous inst) (party props) (restaurants inst) f = Some r"
    "restaurants (snd (commit props inst)) = Some r"
    by auto
  then show ?thesis
    using merge_effect_Some by fastforce
qed

text \<open>After a render that completes, \<^verbatim>\<open>usePrevious\<close> holds the \<^verbatim>\<open>current\<close> of this render.\<close>

lemma commit_previous_current:
  "view (fst (commit props inst)) = Inr v \<Longrightarrow>
     JSON_stringify (party_current (val_of (previous (snd (commit props inst))))) =
     JSON_stringify (opt_chain (party props) party_current)"
  by (auto simp add: commit_def usePrevious_def Let_def opt_chain_def empty_Party_def
      split: sum.splits option.splits prod.splits if_splits)

lemma commit_request_deps:
  "view (fst (commit props inst)) = Inr v \<Longrightarrow>
     request_deps (snd (commit props inst)) =
       Some (map_option addr_of (restaurants inst), ws props)"
  by (auto simp add: commit_def usePrevious_def Let_def
      split: sum.splits option.splits prod.splits if_splits)

lemma commit_same_current:
  "JSON_stringify (party_current (val_of (previous inst))) =
     JSON_stringify (opt_chain (party props) party_current) \<Longrightarrow>
   \<not> rerender (fst (commit props inst))"
  by (auto simp add: commit_def usePrevious_def Let_def merge_effect_same
      split: sum.splits option.splits prod.splits if_splits)

text \<open>The render that follows a render asks for no further one.\<close>

lemma commit_commit_stable:
  "\<not> rerender (fst (commit props (snd (commit props inst))))"
proof (cases "view (fst (commit props inst))")
  case (Inl e)
  then show ?thesis by (simp add: commit_throws)
next
  case (Inr v)
  then show ?thesis
    by (intro commit_same_current commit_previous_current)
qed

section \<open>Properties of a tick\<close>

lemma tick_commit:
  "tick props inst =
     (if rerender (fst (commit props inst))
      then (fst (commit props (snd (commit props inst)))
              \<lparr>sent := sent (fst (commit props inst)) @
                        sent (fst (commit props (snd (commit props inst))))\<rparr>,
            snd (commit props (snd (commit props inst))))
      else commit props inst)"
  by (simp add: tick_def split: prod.splits)

lemma tick_restaurants:
  "restaurants (snd (tick props inst)) = restaurants (snd (commit props inst))"
  by (simp add: tick_commit commit_no_rerender commit_commit_stable)

lemma tick_queue:
  "\<exists>b. (b = [] \<or> b = batch (party props)) \<and>
     queue_items (snd (tick props inst)) = queue_items inst @ b"
proof (cases "rerender (fst (commit props inst))")
  case True
  from commit_rerender[OF this] show ?thesis
    by (auto simp add: tick_restaurants queue_items_def batch_def)
next
  case False
  then show ?thesis
    by (simp add: tick_restaurants queue_items_def commit_no_rerender)
qed

lemma pushes_queue:
  "\<exists>bs. subseq bs (map batch ps) \<and>
     queue_items (pushes w i ps inst) = queue_items inst @ concat bs"
proof (induction ps arbitrary: inst)
  case Nil
  have "subseq [] (map batch [])"
      "queue_items (pushes w i [] inst) = queue_items inst @ concat []"
    by simp_all
  then show ?case by blast
next
  case (Cons p ps)
  let ?props = "\<lparr>party = p, ws = w, ios = i\<rparr>"
  obtain b where b: "b = [] \<or> b = batch p"
      "queue_items (snd (tick ?props inst)) = queue_items inst @ b"
    using tick_queue[of ?props inst] by auto
  show ?case
  proof (cases "view (fst (tick ?props inst))")
    case (Inl e)
    then have stop: "pushes w i (p # ps) inst = snd (tick ?props inst)"
      by simp
    from b(1) show ?thesis
    proof
      assume "b = []"
      with b stop have "subseq [] (map batch (p # ps))"
          "queue_items (pushes w i (p # ps) inst) = queue_items inst @ concat []"
        by auto
      then show ?thesis by blast
    next
      assume "b = batch p"
      with b stop have "subseq [b] (map batch (p # ps))"
          "queue_items (pushes w i (p # ps) inst) = queue_items inst @ concat [b]"
        by auto
      then show ?thesis by blast
    qed
  next
    case (Inr v)
    then have go: "pushes w i (p # ps) inst = pushes w i ps (snd (tick ?props inst))"
      by simp
    obtain bs where bs: "subseq bs (map batch ps)"
        "queue_items (pushes w i ps (snd (tick ?props inst))) =
           queue_items (snd (tick ?props inst)) @ concat bs"
      using Cons.IH by blast
    from b(1) show ?thesis
    proof
      assume "b = []"
      with b bs go have "subseq bs (map batch (p # ps))"
          "queue_items (pushes w i (p # ps) inst) = queue_items inst @ concat bs"
        by auto
      then show ?thesis by blast
    next
      assume "b = batch p"
      with b bs go have "subseq (b # bs) (map batch (p # ps))"
          "queue_items (pushes w i (p # ps) inst) = queue_items inst @ concat (b # bs)"
        by auto
      then show ?thesis by blast
    qed
  qed
qed

lemma subseq_concat: "subseq bs cs \<Longrightarrow> subseq (concat bs) (concat cs)"
  by (induction rule: list_emb.induct) (auto simp add: subseq_append')

lemma subseq_distinct: "subseq xs ys \<Longrightarrow> distinct ys \<Longrightarrow> distinct xs"
  by (auto simp add: subseq_conv_nths)

lemma tick_alert: "alert (fst (tick props inst)) = error_alert (party props)"
  by (simp add: tick_commit commit_alert)

lemma tick_view:
  "view (fst (tick props inst)) =
     render_view (ios props) (party props) (finished inst)
       (restaurants (snd (commit props inst)))"
  by (simp add: tick_commit commit_view commit_finished commit_no_rerender)

lemma tick_finished: "finished (snd (tick props inst)) = finished inst"
  by (simp add: tick_commit commit_finished)

lemma tick_previous_current:
  assumes "view (fst (tick props inst)) = Inr v"
  shows "JSON_stringify (party_current (val_of (previous (snd (tick props inst))))) =
     JSON_stringify (opt_chain (party props) party_current)"
  using assms by (auto simp add: tick_commit intro: commit_previous_current split: if_splits)

lemma tick_sent:
  "sent (fst (tick props inst)) =
     (if rerender (fst (commit props inst))
      then sent (fst (commit props inst)) @ sent (fst (commit props (snd (commit props inst))))
      else sent (fst (commit props inst)))"
  by (simp add: tick_commit)

lemma tick_request_deps_settled:
  assumes "view (fst (tick props inst)) = Inr v"
  shows "request_deps (snd (tick props inst)) =
     Some (map_option addr_of (restaurants (snd (tick props inst))), ws props)"
proof (cases "rerender (fst (commit props inst))")
  case True
  with assms have "view (fst (commit props (snd (commit props inst)))) = Inr v"
    by (simp add: tick_commit)
  from commit_request_deps[OF this] True show ?thesis
    by (simp add: tick_commit commit_no_rerender commit_commit_stable)
next
  case False
  with assms have "view (fst (commit props inst)) = Inr v"
    by (simp add: tick_commit)
  from commit_request_deps[OF this] False show ?thesis
    by (simp add: tick_commit commit_no_rerender)
qed

section \<open>When request-more is sent\<close>

text \<open>A render with cards in the Local Queue does not throw.\<close>

lemma render_view_nonempty:
  "val_of a \<noteq> [] \<Longrightarrow> \<exists>v. render_view i p f (Some a) = Inr v"
  by (auto simp add: render_view_def placeholder_uri_def split: option.splits list.splits)

lemma commit_sent_not_three:
  assumes "\<And>a. restaurants inst = Some a \<Longrightarrow> length (val_of a) \<noteq> 3"
  shows "sent (fst (commit props inst)) = []"
  using assms
  by (auto simp add: commit_sent request_more_effect_def split: sum.splits option.splits)

lemma commit_sent_same_deps:
  assumes "request_deps inst = Some (map_option addr_of (restaurants inst), ws props)"
  shows "sent (fst (commit props inst)) = []"
  using assms by (simp add: commit_sent split: sum.splits)

text \<open>
  A tick that starts with three or more cards sends nothing in its second render: a
  merge only makes the queue longer than three.
\<close>

lemma tick_sent_long_queue:
  assumes "restaurants inst = Some a" and "3 \<le> length (val_of a)"
  shows "sent (fst (tick props inst)) = sent (fst (commit props inst))"
    and "\<exists>q. restaurants (snd (tick props inst)) = Some q \<and> 3 \<le> length (val_of q)"
proof -
  show "sent (fst (tick props inst)) = sent (fst (commit props inst))"
  proof (cases "rerender (fst (commit props inst))")
    case True
    from commit_rerender[OF True] assms obtain c f where
      c: "val_of c \<noteq> []"
        "restaurants (snd (commit props inst)) = Some (Obj f (val_of a @ val_of c))"
      by auto
    have "sent (fst (commit props (snd (commit props inst)))) = []"
    proof (rule commit_sent_not_three)
      fix b assume "restaurants (snd (commit props inst)) = Some b"
      with c assms(2) show "length (val_of b) \<noteq> 3"
        by (cases "val_of c") auto
    qed
    with True show ?thesis by (simp add: tick_sent)
  next
    case False
    then show ?thesis by (simp add: tick_sent)
  qed
  show "\<exists>q. restaurants (snd (tick props inst)) = Some q \<and> 3 \<le> length (val_of q)"
  proof (cases "rerender (fst (commit props inst))")
    case True
    from commit_rerender[OF True] assms show ?thesis
      by (auto simp add: tick_restaurants)
  next
    case False
    with assms show ?thesis
      by (simp add: tick_restaurants commit_no_rerender)
  qed
qed

lemma commit_sent_three:
  "sent (fst (commit props inst)) =
     (if (\<exists>a. restaurants inst = Some a \<and> length (val_of a) = 3) \<and>
         request_deps inst \<noteq> Some (map_option addr_of (restaurants inst), ws props)
      then [Request_more] else [])"
proof (cases "\<exists>a. restaurants inst = Some a \<and> length (val_of a) = 3")
  case True
  then obtain a where a: "restaurants inst = Some a" "length (val_of a) = 3" by blast
  then have "val_of a \<noteq> []" by auto
  then obtain v where "render_view (ios props) (party props) (finished inst) (Some a) = Inr v"
    using render_view_nonempty by blast
  with a show ?thesis
    by (simp add: commit_sent request_more_effect_def)
next
  case False
  then have "sent (fst (commit props inst)) = []"
    by (intro commit_sent_not_three) auto
  with False show ?thesis by simp
qed

section \<open>The error field and the rest of a render\<close>

lemma set_error_simps:
  "opt_chain (party (set_error x props)) party_id = opt_chain (party props) party_id"
  "opt_chain (party (set_error x props)) party_status = opt_chain (party props) party_status"
  "opt_chain (party (set_error x props)) party_restaurants =
     opt_chain (party props) party_restaurants"
  "opt_chain (party (set_error x props)) party_current = opt_chain (party props) party_current"
  "opt_chain (party (set_error x props)) party_total = opt_chain (party props) party_total"
  "map_option addr_of (party (set_error x props)) = map_option addr_of (party props)"
  "ws (set_error x props) = ws props"
  "ios (set_error x props) = ios props"
  "(party (set_error x props) = None) = (party props = None)"
  by (cases "party props"; simp add: set_error_def opt_chain_def)+

lemma render_view_set_error:
  "render_view i (party (set_error x props)) f rs = render_view i (party props) f rs"
  by (simp add: render_view_def set_error_simps)

lemma merge_effect_set_error:
  "merge_effect prev (party (set_error x props)) rs f = merge_effect prev (party props) rs f"
  by (simp add: merge_effect_def set_error_simps)

text \<open>A render shows, sends and merges the same whatever \<^verbatim>\<open>party.error\<close> is.\<close>

lemma commit_set_error:
  "view (fst (commit (set_error x props) inst)) = view (fst (commit props inst))"
  "sent (fst (commit (set_error x props) inst)) = sent (fst (commit props inst))"
  "rerender (fst (commit (set_error x props) inst)) = rerender (fst (commit props inst))"
  "restaurants (snd (commit (set_error x props) inst)) = restaurants (snd (commit props inst))"
proof -
  show "view (fst (commit (set_error x props) inst)) = view (fst (commit props inst))"
    by (simp add: commit_view render_view_set_error set_error_simps)
  show "sent (fst (commit (set_error x props) inst)) = sent (fst (commit props inst))"
    by (simp add: commit_sent render_view_set_error set_error_simps)
  show "rerender (fst (commit (set_error x props) inst)) = rerender (fst (commit props inst))"
    by (cases "party props")
       (simp_all add: commit_def usePrevious_def Let_def render_view_set_error
          merge_effect_set_error set_error_simps split: sum.splits,
        simp_all add: set_error_def merge_effect_def opt_chain_def render_view_def)
  show "restaurants (snd (commit (set_error x props) inst)) =
      restaurants (snd (commit props inst))"
    by (cases "party props")
       (simp_all add: commit_def usePrevious_def Let_def render_view_set_error
          merge_effect_set_error set_error_simps split: sum.splits,
        simp_all add: set_error_def merge_effect_def opt_chain_def render_view_def)
qed

lemma after_swipe_eq:
  "after_swipe =
    \<lparr>finished = False, restaurants = Some (Obj (External 5) [rest_b, rest_c, rest_d]),
     details = None,
     previous = Obj (External 10) (active_party [rest_a, rest_b, rest_c, rest_d] 4),
     request_deps = Some (Some (External 1), External 0),
     merge_deps = Some (Some (External 10), External 0, Some (External 1)),
     heap = 0\<rparr>"
  by (simp add: after_swipe_def eval_defs)

section \<open>The claims\<close>

subsection \<open>C1: the Local Queue under a sequence of pushes\<close>

text \<open>
  C1, as amended. For every sequence of pushed snapshots, the Local Queue afterwards is
  the Local Queue before, followed by some of the pushed \<^verbatim>\<open>current\<close> batches, each whole
  and in the order of arrival: entries are only appended, never reordered or removed.
  The reconciler does not look at restaurant ids. The queue is free of duplicate ids
  when the queue before and all the pushed batches together are.
\<close>

theorem local_queue_append_only:
  "(\<exists>bs. subseq bs (map batch ps) \<and>
      queue_items (pushes w i ps inst) = queue_items inst @ concat bs) \<and>
   (distinct (map restaurant_id (queue_items inst @ concat (map batch ps))) \<longrightarrow>
      distinct (map restaurant_id (queue_items (pushes w i ps inst))))"
proof (intro conjI impI)
  show ex: "\<exists>bs. subseq bs (map batch ps) \<and>
      queue_items (pushes w i ps inst) = queue_items inst @ concat bs"
    by (rule pushes_queue)
  assume d: "distinct (map restaurant_id (queue_items inst @ concat (map batch ps)))"
  from ex obtain bs where bs: "subseq bs (map batch ps)"
    "queue_items (pushes w i ps inst) = queue_items inst @ concat bs" by blast
  from bs(1) have "subseq (concat bs) (concat (map batch ps))"
    by (rule subseq_concat)
  then have "subseq (queue_items inst @ concat bs) (queue_items inst @ concat (map batch ps))"
    by (simp add: subseq_append')
  then have "subseq (map restaurant_id (queue_items (pushes w i ps inst)))
      (map restaurant_id (queue_items inst @ concat (map batch ps)))"
    unfolding bs(2) by (rule subseq_map)
  from subseq_distinct[OF this d]
  show "distinct (map restaurant_id (queue_items (pushes w i ps inst)))" .
qed

theorem local_queue_append_only_witness:
  "(\<exists>bs. subseq bs [[rest_b], [rest_c]] \<and> [rest_a, rest_b, rest_c] = [rest_a] @ concat bs) \<and>
   distinct (map restaurant_id [rest_a, rest_b, rest_c]) \<and>
   distinct (map restaurant_id (queue_items
     (pushes (External 0) False [batch_push 10 [rest_b], batch_push 20 [rest_c]]
        (seeded [rest_a]))))"
  using local_queue_append_only [of "[batch_push 10 [rest_b], batch_push 20 [rest_c]]"
          "External 0" False "seeded [rest_a]"]
  by (simp add: eval_defs)

text \<open>
  The claim as stated fails: a queue holding \<open>a\<close> receives the batch \<open>[b]\<close> and then the
  batch \<open>[a]\<close>, and holds the id \<open>a\<close> twice.
\<close>

theorem local_queue_duplicate_counterexample:
  "queue_items (pushes (External 0) False [batch_push 10 [rest_b], batch_push 20 [rest_a]]
      (seeded [rest_a])) = [rest_a, rest_b, rest_a] \<and>
   \<not> distinct (map restaurant_id (queue_items
      (pushes (External 0) False [batch_push 10 [rest_b], batch_push 20 [rest_a]]
         (seeded [rest_a]))))"
  by (simp add: eval_defs)

subsection \<open>C2: a snapshot with total 0\<close>

text \<open>
  C2, as amended. If a snapshot with \<^verbatim>\<open>total === 0\<close> arrives and the party is not
  waiting, the Exhausted view is shown at once, whatever the Local Queue holds and
  whether or not the finished flag is set: the remaining cards are not presented.
\<close>

theorem total_zero_shows_exhausted:
  assumes "opt_chain (party props) party_total = Some 0"
      and "opt_chain (party props) party_status \<noteq> Some ''waiting''"
  shows "view (fst (tick props inst)) = Inr Exhausted"
  using assms by (simp add: tick_view render_view_def)

theorem total_zero_shows_exhausted_witness:
  "opt_chain (party (snapshot 10 (active_party [rest_a, rest_b, rest_c] 0))) party_total = Some 0 \<and>
   opt_chain (party (snapshot 10 (active_party [rest_a, rest_b, rest_c] 0))) party_status \<noteq>
     Some ''waiting'' \<and>
   view (fst (tick (snapshot 10 (active_party [rest_a, rest_b, rest_c] 0)) (seeded [rest_c]))) =
     Inr Exhausted"
proof -
  let ?P = "snapshot 10 (active_party [rest_a, rest_b, rest_c] 0)"
  have t: "opt_chain (party ?P) party_total = Some 0"
    by (simp add: snapshot_def active_party_def opt_chain_def)
  have w: "opt_chain (party ?P) party_status \<noteq> Some ''waiting''"
    by (simp add: snapshot_def active_party_def opt_chain_def)
  show ?thesis
    using t w total_zero_shows_exhausted [OF t w, of "seeded [rest_c]"] by simp
qed

text \<open>
  The claim as stated fails: with the cards \<open>c\<close> and \<open>d\<close> still in the Local Queue and
  the finished flag unset, a snapshot with total 0 brings up the Exhausted view.
\<close>

theorem total_zero_hides_cards_counterexample:
  "queue_items (seeded [rest_c, rest_d]) = [rest_c, rest_d] \<and>
   \<not> finished (seeded [rest_c, rest_d]) \<and>
   view (fst (tick (snapshot 10 (active_party [rest_a, rest_b, rest_c, rest_d] 0))
      (seeded [rest_c, rest_d]))) = Inr Exhausted"
  by (simp add: eval_defs)

subsection \<open>C3: the order of the views\<close>

text \<open>
  C3, as amended. In every render the error alert is raised first exactly when
  \<^verbatim>\<open>party.error\<close> is a non-empty string, whatever else holds, and it does not stand in for
  a view. Every render that completes shows exactly one view beneath it, chosen by the
  fixed precedence Waiting, then Exhausted, then Loading, then Active: when
  \<^verbatim>\<open>party.status === 'waiting'\<close> and the Exhausted condition hold together, the Waiting
  view wins. The Waiting, Exhausted and Loading renders always complete; the Active
  render completes off iOS and, on iOS, whenever the Local Queue or \<^verbatim>\<open>party.restaurants\<close>
  holds a restaurant. (The exit confirmation is raised by the back button, not by a
  render.)
\<close>

theorem view_precedence:
  "(opt_chain (party props) party_error = Some e \<and> e \<noteq> [] \<longrightarrow>
      alert (fst (commit props inst)) = Some e) \<and>
   (opt_chain (party props) party_error = None \<or>
    opt_chain (party props) party_error = Some [] \<longrightarrow>
      alert (fst (commit props inst)) = None) \<and>
   (opt_chain (party props) party_status = Some ''waiting'' \<longrightarrow>
      view (fst (commit props inst)) = Inr (Waiting (opt_chain (party props) party_id))) \<and>
   (opt_chain (party props) party_status \<noteq> Some ''waiting'' \<and>
    (finished inst \<or> opt_chain (party props) party_total = Some 0) \<longrightarrow>
      view (fst (commit props inst)) = Inr Exhausted) \<and>
   (opt_chain (party props) party_status \<noteq> Some ''waiting'' \<and>
    \<not> finished inst \<and> opt_chain (party props) party_total \<noteq> Some 0 \<and>
    opt_chain (party props) party_restaurants = None \<longrightarrow>
      view (fst (commit props inst)) = Inr Loading) \<and>
   (opt_chain (party props) party_status \<noteq> Some ''waiting'' \<and>
    \<not> finished inst \<and> opt_chain (party props) party_total \<noteq> Some 0 \<and>
    opt_chain (party props) party_restaurants = Some prs \<and>
    (ios props \<longrightarrow> queue_items inst @ val_of prs \<noteq> []) \<longrightarrow>
      view (fst (commit props inst)) =
        Inr (Active (case restaurants inst of None \<Rightarrow> prs | Some a \<Rightarrow> a))) \<and>
   (view (fst (commit props inst)) = Inr v \<longrightarrow>
      v = (if opt_chain (party props) party_status = Some ''waiting''
           then Waiting (opt_chain (party props) party_id)
           else if finished inst \<or> opt_chain (party props) party_total = Some 0 then Exhausted
           else (case opt_chain (party props) party_restaurants of
                   None \<Rightarrow> Loading
                 | Some prs \<Rightarrow>
                     Active (case restaurants inst of None \<Rightarrow> prs | Some a \<Rightarrow> a))))"
  by (auto simp add: commit_alert commit_view error_alert_def render_view_def placeholder_uri_def
      queue_items_def split: option.splits list.splits if_splits)

theorem view_precedence_witness:
  "alert (fst (commit (snapshot 10 (empty_Party\<lparr>party_id := Some ''AB12'',
       party_status := Some ''waiting'', party_error := Some ''party not found''\<rparr>))
      (initial_instance (Obj (External 0) empty_Party)))) = Some ''party not found'' \<and>
   alert (fst (commit (snapshot 10 (active_party [rest_a, rest_b] 2))
      (initial_instance (Obj (External 0) empty_Party)))) = None \<and>
   view (fst (commit (snapshot 10 (empty_Party\<lparr>party_id := Some ''AB12'',
       party_status := Some ''waiting'', party_error := Some ''party not found''\<rparr>))
      (initial_instance (Obj (External 0) empty_Party)))) = Inr (Waiting (Some ''AB12'')) \<and>
   view (fst (commit (snapshot 10 (active_party [rest_a, rest_b] 0))
      (initial_instance (Obj (External 0) empty_Party)))) = Inr Exhausted \<and>
   view (fst (commit (snapshot 10 (empty_Party\<lparr>party_status := Some ''active''\<rparr>))
      (initial_instance (Obj (External 0) empty_Party)))) = Inr Loading \<and>
   view (fst (commit (snapshot 10 (active_party [rest_a, rest_b] 2))
      (initial_instance (Obj (External 0) empty_Party)))) =
      Inr (Active (Obj (External 2) [rest_a, rest_b]))"
proof -
  let ?I = "initial_instance (Obj (External 0) empty_Party)"
  let ?W = "snapshot 10 (empty_Party\<lparr>party_id := Some ''AB12'',
       party_status := Some ''waiting'', party_error := Some ''party not found''\<rparr>)"
  let ?E = "snapshot 10 (active_party [rest_a, rest_b] 0)"
  let ?L = "snapshot 10 (empty_Party\<lparr>party_status := Some ''active''\<rparr>)"
  let ?A = "snapshot 10 (active_party [rest_a, rest_b] 2)"
  note defs = snapshot_def active_party_def opt_chain_def empty_Party_def
    initial_instance_def queue_items_def
  have a1: "alert (fst (commit ?W ?I)) = Some ''party not found''"
    using view_precedence [where props = ?W and inst = ?I and e = "''party not found''",
        THEN conjunct1]
    by (simp add: defs)
  have a2: "alert (fst (commit ?A ?I)) = None"
    using view_precedence [where props = ?A and inst = ?I, THEN conjunct2, THEN conjunct1]
    by (simp add: defs)
  have w: "view (fst (commit ?W ?I)) = Inr (Waiting (Some ''AB12''))"
    using view_precedence [where props = ?W and inst = ?I,
        THEN conjunct2, THEN conjunct2, THEN conjunct1]
    by (simp add: defs)
  have e: "view (fst (commit ?E ?I)) = Inr Exhausted"
    using view_precedence [where props = ?E and inst = ?I,
        THEN conjunct2, THEN conjunct2, THEN conjunct2, THEN conjunct1]
    by (simp add: defs)
  have l: "view (fst (commit ?L ?I)) = Inr Loading"
    using view_precedence [where props = ?L and inst = ?I,
        THEN conjunct2, THEN conjunct2, THEN conjunct2, THEN conjunct2, THEN conjunct1]
    by (simp add: defs)
  have a: "view (fst (commit ?A ?I)) = Inr (Active (Obj (External 2) [rest_a, rest_b]))"
    using view_precedence [where props = ?A and inst = ?I
        and prs = "Obj (External 2) [rest_a, rest_b]",
        THEN conjunct2, THEN conjunct2, THEN conjunct2, THEN conjunct2, THEN conjunct2,
        THEN conjunct1]
    by (simp add: defs)
  from a1 a2 w e l a show ?thesis by (simp only: simp_thms)
qed

text \<open>
  The claim as stated fails: a waiting party whose total is 0, in a component whose
  finished flag is set, shows the Waiting view with the code, not the Exhausted view.
\<close>

theorem waiting_beats_exhausted_counterexample:
  "opt_chain (party (snapshot 10 (empty_Party\<lparr>party_id := Some ''AB12'',
       party_status := Some ''waiting'', party_total := Some 0\<rparr>))) party_total = Some 0 \<and>
   finished (setFinished True (seeded [rest_a])) \<and>
   view (fst (commit (snapshot 10 (empty_Party\<lparr>party_id := Some ''AB12'',
       party_status := Some ''waiting'', party_total := Some 0\<rparr>))
      (setFinished True (seeded [rest_a])))) = Inr (Waiting (Some ''AB12''))"
  by (simp add: eval_defs)

subsection \<open>C4: request-more when the queue comes down to three\<close>

text \<open>
  C4. The last render saw the queue array \<open>a0\<close>, longer than three, and the socket of
  \<open>props\<close>; the Local Queue is now the array \<open>a1\<close> of exactly three cards (an address
  holds one array, so \<open>a1\<close> is another array than \<open>a0\<close>). Then the tick sends exactly one
  request-more. A later render that leaves the Local Queue alone (other details, another
  finished flag, any snapshot \<open>props'\<close> on the same socket) sends none.
\<close>

theorem request_more_edge_triggered:
  assumes last: "request_deps inst = Some (Some (addr_of a0), ws props)"
      and higher: "3 < length (val_of a0)"
      and now: "restaurants inst = Some a1" "length (val_of a1) = 3"
      and heap_ok: "addr_of a1 = addr_of a0 \<longrightarrow> val_of a1 = val_of a0"
      and same_ws: "ws props' = ws props"
  shows "sent (fst (tick props inst)) = [Request_more] \<and>
     sent (fst (tick props' (setDetails d (setFinished f (snd (tick props inst)))))) = []"
proof
  have ne: "addr_of a1 \<noteq> addr_of a0"
    using higher now(2) heap_ok by auto
  obtain v where v: "render_view (ios props) (party props) (finished inst) (Some a1) = Inr v"
    using render_view_nonempty[of a1] now(2) by fastforce
  have "sent (fst (commit props inst)) = [Request_more]"
    using last now ne v by (simp add: commit_sent request_more_effect_def)
  moreover have "sent (fst (tick props inst)) = sent (fst (commit props inst))"
    using now by (intro tick_sent_long_queue(1)[of inst a1]) simp_all
  ultimately show "sent (fst (tick props inst)) = [Request_more]" by simp
next
  let ?i2 = "snd (tick props inst)"
  let ?i3 = "setDetails d (setFinished f ?i2)"
  obtain q where q: "restaurants ?i2 = Some q" "3 \<le> length (val_of q)"
    using tick_sent_long_queue(2)[of inst a1 props] now by auto
  have "val_of q \<noteq> []" using q(2) by auto
  then obtain v where
    "render_view (ios props) (party props) (finished inst)
       (restaurants (snd (commit props inst))) = Inr v"
    using render_view_nonempty[of q] q(1) by (fastforce simp add: tick_restaurants)
  then have "view (fst (tick props inst)) = Inr v"
    by (simp add: tick_view)
  from tick_request_deps_settled[OF this]
  have deps: "request_deps ?i3 = Some (map_option addr_of (restaurants ?i3), ws props')"
    by (simp add: setDetails_def setFinished_def same_ws)
  have q3: "restaurants ?i3 = Some q"
    using q(1) by (simp add: setDetails_def setFinished_def)
  have "sent (fst (tick props' ?i3)) = sent (fst (commit props' ?i3))"
    using q3 q(2) by (rule tick_sent_long_queue(1))
  also have "\<dots> = []"
    using deps by (rule commit_sent_same_deps)
  finally show "sent (fst (tick props' ?i3)) = []" .
qed

theorem request_more_edge_triggered_witness:
  "request_deps after_swipe =
     Some (Some (addr_of (Obj (External 1) [rest_a, rest_b, rest_c, rest_d])),
           ws (snapshot 10 (active_party [rest_a, rest_b, rest_c, rest_d] 4))) \<and>
   restaurants after_swipe = Some (Obj (External 5) [rest_b, rest_c, rest_d]) \<and>
   sent (fst (tick (snapshot 10 (active_party [rest_a, rest_b, rest_c, rest_d] 4))
     after_swipe)) = [Request_more] \<and>
   sent (fst (tick (snapshot 20 (active_party [rest_a, rest_b, rest_c, rest_d] 4))
     (setDetails (Some rest_b) (setFinished False
        (snd (tick (snapshot 10 (active_party [rest_a, rest_b, rest_c, rest_d] 4))
           after_swipe)))))) = []"
proof -
  let ?P = "snapshot 10 (active_party [rest_a, rest_b, rest_c, rest_d] 4)"
  let ?a0 = "Obj (External 1) [rest_a, rest_b, rest_c, rest_d]"
  let ?a1 = "Obj (External 5) [rest_b, rest_c, rest_d]"
  have last: "request_deps after_swipe = Some (Some (addr_of ?a0), ws ?P)"
    by (simp add: after_swipe_eq snapshot_def)
  have higher: "3 < length (val_of ?a0)" by simp
  have now: "restaurants after_swipe = Some ?a1" "length (val_of ?a1) = 3"
    by (simp_all add: after_swipe_eq)
  have heap_ok: "addr_of ?a1 = addr_of ?a0 \<longrightarrow> val_of ?a1 = val_of ?a0" by simp
  have same_ws: "ws (snapshot 20 (active_party [rest_a, rest_b, rest_c, rest_d] 4)) = ws ?P"
    by (simp add: snapshot_def)
  show ?thesis
    using last now(1)
      request_more_edge_triggered [OF last higher now heap_ok same_ws,
        where d = "Some rest_b" and f = False]
    by simp
qed

subsection \<open>C5: what the test for a new batch compares\<close>

text \<open>
  C5, as amended. On every reconciliation tick, the decision that a new batch arrived
  compares the JSON text of the \<^verbatim>\<open>current\<close> field alone of the previous Party value with
  that of the new one. The batch is appended exactly when the two texts differ, the new
  \<^verbatim>\<open>current\<close> is non-empty and the Local Queue exists; no other field of either Party
  value takes part.
\<close>

theorem merge_decision_current_only:
  "(merge_effect prev p rs f \<noteq> None \<longleftrightarrow>
      JSON_stringify (party_current (val_of prev)) \<noteq> JSON_stringify (opt_chain p party_current) \<and>
      batch p \<noteq> [] \<and> rs \<noteq> None) \<and>
   (party_current (val_of prev') = party_current (val_of prev) \<and>
    opt_chain p' party_current = opt_chain p party_current \<longrightarrow>
      merge_effect prev' p' rs f = merge_effect prev p rs f)"
  by (auto simp add: merge_effect_def batch_def split: option.splits)

theorem merge_decision_current_only_witness:
  "merge_effect
      (Obj (External 10)
        ((active_party [rest_a] 5)\<lparr>party_current := Some (Obj (External 11) [rest_b])\<rparr>))
      (Some (Obj (External 20)
        ((active_party [rest_a] 4)\<lparr>party_current := Some (Obj (External 11) [rest_b])\<rparr>)))
      (Some (Obj (External 1) [rest_a])) (Local 0) =
   merge_effect
      (Obj (External 10) (empty_Party\<lparr>party_current := Some (Obj (External 11) [rest_b])\<rparr>))
      (Some (Obj (External 20)
        (empty_Party\<lparr>party_current := Some (Obj (External 11) [rest_b])\<rparr>)))
      (Some (Obj (External 1) [rest_a])) (Local 0) \<and>
   merge_effect (Obj (External 10) (active_party [rest_a] 5))
      (Some (Obj (External 20)
        ((active_party [rest_a] 5)\<lparr>party_current := Some (Obj (External 11) [rest_b])\<rparr>)))
      (Some (Obj (External 1) [rest_a])) (Local 0) \<noteq> None"
proof -
  have same:
    "party_current (val_of (Obj (External 10)
        ((active_party [rest_a] 5)\<lparr>party_current := Some (Obj (External 11) [rest_b])\<rparr>))) =
       party_current (val_of (Obj (External 10)
        (empty_Party\<lparr>party_current := Some (Obj (External 11) [rest_b])\<rparr>))) \<and>
     opt_chain (Some (Obj (External 20)
        ((active_party [rest_a] 4)\<lparr>party_current := Some (Obj (External 11) [rest_b])\<rparr>)))
        party_current =
       opt_chain (Some (Obj (External 20)
        (empty_Party\<lparr>party_current := Some (Obj (External 11) [rest_b])\<rparr>))) party_current"
    by (simp add: opt_chain_def)
  have differ:
    "JSON_stringify (party_current (val_of (Obj (External 10) (active_party [rest_a] 5)))) \<noteq>
       JSON_stringify (opt_chain (Some (Obj (External 20)
        ((active_party [rest_a] 5)\<lparr>party_current := Some (Obj (External 11) [rest_b])\<rparr>)))
        party_current) \<and>
     batch (Some (Obj (External 20)
        ((active_party [rest_a] 5)\<lparr>party_current := Some (Obj (External 11) [rest_b])\<rparr>))) \<noteq> [] \<and>
     Some (Obj (External 1) [rest_a]) \<noteq> None"
    by (simp add: opt_chain_def batch_def JSON_stringify_def active_party_def empty_Party_def)
  show ?thesis
    using merge_decision_current_only [THEN conjunct2, rule_format, OF same]
      merge_decision_current_only [THEN conjunct1, THEN iffD2, OF differ]
    by blast
qed

text \<open>
  The claim as stated fails: the previous Party value and the new one differ in
  \<^verbatim>\<open>total\<close> (5 and 4), so they are not equal as whole values, and the new one carries the
  batch \<open>[b]\<close>; the code sees the same \<^verbatim>\<open>current\<close> in both and decides that no new batch
  arrived, appending nothing to the existing Local Queue.
\<close>

theorem whole_party_comparison_counterexample:
  "\<not> Party_deep_equal
      ((active_party [rest_a] 5)\<lparr>party_current := Some (Obj (External 11) [rest_b])\<rparr>)
      ((active_party [rest_a] 4)\<lparr>party_current := Some (Obj (External 11) [rest_b])\<rparr>) \<and>
   batch (Some (Obj (External 20)
      ((active_party [rest_a] 4)\<lparr>party_current := Some (Obj (External 11) [rest_b])\<rparr>))) =
     [rest_b] \<and>
   merge_effect
      (Obj (External 10)
        ((active_party [rest_a] 5)\<lparr>party_current := Some (Obj (External 11) [rest_b])\<rparr>))
      (Some (Obj (External 20)
        ((active_party [rest_a] 4)\<lparr>party_current := Some (Obj (External 11) [rest_b])\<rparr>)))
      (Some (Obj (External 1) [rest_a])) (Local 0) = None"
  by (simp add: eval_defs)

subsection \<open>C6: a push that repeats the previous batch\<close>

text \<open>
  C6. When the \<^verbatim>\<open>current\<close> of a pushed Party has the same JSON text as the \<^verbatim>\<open>current\<close>
  captured at the previous render, the reconciler does not append it again: no effect
  sets state, and the Local Queue after the render, and after the tick, is the Local
  Queue before.
\<close>

theorem identical_current_not_reappended:
  assumes "JSON_stringify (party_current (val_of (previous inst))) =
     JSON_stringify (opt_chain (party props) party_current)"
  shows "\<not> rerender (fst (commit props inst)) \<and>
     restaurants (snd (commit props inst)) = restaurants inst \<and>
     restaurants (snd (tick props inst)) = restaurants inst"
  using commit_same_current[OF assms]
  by (simp add: tick_restaurants commit_no_rerender)

theorem identical_current_not_reappended_witness:
  "queue_items (snd (tick \<lparr>party = batch_push 10 [rest_b], ws = External 0, ios = False\<rparr>
      (seeded [rest_a]))) = [rest_a, rest_b] \<and>
   JSON_stringify (party_current (val_of (previous
      (snd (tick \<lparr>party = batch_push 10 [rest_b], ws = External 0, ios = False\<rparr>
        (seeded [rest_a]))))))
     = JSON_stringify
        (opt_chain (party \<lparr>party = batch_push 20 [rest_b], ws = External 0, ios = False\<rparr>)
           party_current) \<and>
   queue_items (snd (tick \<lparr>party = batch_push 20 [rest_b], ws = External 0, ios = False\<rparr>
      (snd (tick \<lparr>party = batch_push 10 [rest_b], ws = External 0, ios = False\<rparr>
        (seeded [rest_a]))))) = [rest_a, rest_b]"
proof -
  let ?P1 = "\<lparr>party = batch_push 10 [rest_b], ws = External 0, ios = False\<rparr>"
  let ?P2 = "\<lparr>party = batch_push 20 [rest_b], ws = External 0, ios = False\<rparr>"
  have q: "queue_items (snd (tick ?P1 (seeded [rest_a]))) = [rest_a, rest_b]"
    by (simp add: eval_defs)
  have h: "JSON_stringify (party_current (val_of (previous (snd (tick ?P1 (seeded [rest_a]))))))
     = JSON_stringify (opt_chain (party ?P2) party_current)"
    by (simp add: eval_defs)
  have "restaurants (snd (tick ?P2 (snd (tick ?P1 (seeded [rest_a]))))) =
      restaurants (snd (tick ?P1 (seeded [rest_a])))"
    using identical_current_not_reappended [OF h] by (elim conjE)
  then have "queue_items (snd (tick ?P2 (snd (tick ?P1 (seeded [rest_a]))))) =
      queue_items (snd (tick ?P1 (seeded [rest_a])))"
    by (simp only: queue_items_def)
  with q h show ?thesis by (simp only: simp_thms)
qed

subsection \<open>C7: the lifecycle state when request-more is sent\<close>

text \<open>
  C7, as amended. A render sends request-more exactly when the Local Queue holds
  exactly three restaurants and the queue array or the socket is another value than at
  the previous render (or this is the first render), and it sends nothing else. The
  lifecycle state plays no part: request-more is also sent while the Waiting, Exhausted
  or Loading view or the error dialog is shown.
\<close>

theorem request_more_whatever_the_view:
  "sent (fst (commit props inst)) =
     (if (\<exists>a. restaurants inst = Some a \<and> length (val_of a) = 3) \<and>
         request_deps inst \<noteq> Some (map_option addr_of (restaurants inst), ws props)
      then [Request_more] else [])"
proof (cases "\<exists>a. restaurants inst = Some a \<and> length (val_of a) = 3")
  case True
  then obtain a where a: "restaurants inst = Some a" "length (val_of a) = 3" by blast
  then have "val_of a \<noteq> []" by auto
  then obtain v where "render_view (ios props) (party props) (finished inst) (Some a) = Inr v"
    using render_view_nonempty by blast
  with a show ?thesis
    by (simp add: commit_sent request_more_effect_def)
next
  case False
  then have "sent (fst (commit props inst)) = []"
    by (intro commit_sent_not_three) auto
  with False show ?thesis by simp
qed

theorem request_more_whatever_the_view_witness:
  "view (fst (commit (snapshot 10 (empty_Party\<lparr>party_status := Some ''waiting''\<rparr>))
      (seeded [rest_a, rest_b, rest_c]))) = Inr (Waiting None) \<and>
   sent (fst (commit (snapshot 10 (empty_Party\<lparr>party_status := Some ''waiting''\<rparr>))
      (seeded [rest_a, rest_b, rest_c]))) = [Request_more]"
  using request_more_whatever_the_view [where inst = "seeded [rest_a, rest_b, rest_c]"
      and props = "snapshot 10 (empty_Party\<lparr>party_status := Some ''waiting''\<rparr>)"]
  by (simp add: commit_view render_view_def snapshot_def opt_chain_def empty_Party_def seeded_def
      setRestaurants_def initial_instance_def)

text \<open>
  The claim as stated fails: a party of three restaurants arrives with total 0, so the
  new component shows the Exhausted view; the user presses Start Over; the render that
  follows still shows the Exhausted view, and sends request-more.
\<close>

theorem request_more_while_exhausted_counterexample:
  "view (fst (tick (snapshot 10 (active_party [rest_a, rest_b, rest_c] 0))
      (initial_instance (Obj (External 0) empty_Party)))) = Inr Exhausted \<and>
   view (fst (tick (snapshot 10 (active_party [rest_a, rest_b, rest_c] 0))
      (snd (start_over (snapshot 10 (active_party [rest_a, rest_b, rest_c] 0))
        (snd (tick (snapshot 10 (active_party [rest_a, rest_b, rest_c] 0))
          (initial_instance (Obj (External 0) empty_Party)))))))) = Inr Exhausted \<and>
   sent (fst (tick (snapshot 10 (active_party [rest_a, rest_b, rest_c] 0))
      (snd (start_over (snapshot 10 (active_party [rest_a, rest_b, rest_c] 0))
        (snd (tick (snapshot 10 (active_party [rest_a, rest_b, rest_c] 0))
          (initial_instance (Obj (External 0) empty_Party)))))))) = [Request_more]"
  by (simp add: eval_defs)

subsection \<open>C8: the error dialog\<close>

text \<open>
  C8, as amended. Whenever \<^verbatim>\<open>party.error\<close> is a non-empty string, whatever the state of
  the component, the render raises the error dialog with that message first, but the
  dialog pre-empts nothing: the same render shows the view, sends the request-more and
  merges the batch that it would without the error. Acknowledging the dialog navigates
  to Join and then resets Party to the empty value; it sends no socket message and
  leaves the state cells of the component as they are.
\<close>

theorem error_dialog_raised_over_the_view:
  assumes "opt_chain (party props) party_error = Some e" and "e \<noteq> []"
  shows "alert (fst (commit props inst)) = Some e \<and>
     alert (fst (tick props inst)) = Some e \<and>
     view (fst (commit props inst)) = view (fst (commit (set_error None props) inst)) \<and>
     sent (fst (commit props inst)) = sent (fst (commit (set_error None props) inst)) \<and>
     restaurants (snd (commit props inst)) =
       restaurants (snd (commit (set_error None props) inst)) \<and>
     fst (error_ok inst') =
       [Navigate ''Join'', Set_party (Obj (Local (heap inst')) empty_Party)] \<and>
     (\<forall>m. Ws_send m \<notin> set (fst (error_ok inst'))) \<and>
     finished (snd (error_ok inst')) = finished inst' \<and>
     restaurants (snd (error_ok inst')) = restaurants inst' \<and>
     details (snd (error_ok inst')) = details inst'"
  using assms
  by (simp add: commit_alert tick_alert error_alert_def error_ok_def commit_set_error)

theorem error_dialog_raised_over_the_view_witness:
  "opt_chain (party error_push) party_error = Some ''party not found'' \<and>
   alert (fst (commit error_push mounted_then_swiped)) = Some ''party not found'' \<and>
   view (fst (commit (set_error None error_push) mounted_then_swiped)) =
     Inr (Active (Obj (External 5) [rest_b, rest_c, rest_d])) \<and>
   view (fst (commit error_push mounted_then_swiped)) =
     Inr (Active (Obj (External 5) [rest_b, rest_c, rest_d])) \<and>
   fst (error_ok mounted_then_swiped) =
     [Navigate ''Join'', Set_party (Obj (Local 0) empty_Party)]"
proof -
  have h: "opt_chain (party error_push) party_error = Some ''party not found''"
    by (simp add: error_push_def snapshot_def active_party_def opt_chain_def empty_Party_def)
  have n: "''party not found'' \<noteq> []" by simp
  have v: "view (fst (commit (set_error None error_push) mounted_then_swiped)) =
     Inr (Active (Obj (External 5) [rest_b, rest_c, rest_d]))"
    by (simp add: eval_defs)
  have z: "heap mounted_then_swiped = 0"
    by (simp add: eval_defs)
  show ?thesis
    using h v error_dialog_raised_over_the_view [OF h n, of mounted_then_swiped
        mounted_then_swiped]
    by (simp add: z)
qed

text \<open>
  The claim as stated fails: a mounted component has three cards left when a snapshot
  arrives with an error and the batch \<open>[a]\<close>. The dialog is raised, and under it the
  Active view is rendered, request-more is sent and the batch is appended to the queue.
\<close>

theorem error_does_not_preempt_counterexample:
  "alert (fst (tick error_push mounted_then_swiped)) = Some ''party not found'' \<and>
   view (fst (tick error_push mounted_then_swiped)) =
     Inr (Active (Obj (Local 0) [rest_b, rest_c, rest_d, rest_a])) \<and>
   sent (fst (tick error_push mounted_then_swiped)) = [Request_more] \<and>
   queue_items mounted_then_swiped = [rest_b, rest_c, rest_d] \<and>
   queue_items (snd (tick error_push mounted_then_swiped)) =
     [rest_b, rest_c, rest_d, rest_a]"
  by (simp add: eval_defs)

subsection \<open>C9: Start Over\<close>

text \<open>
  C9, as amended. In a component that shows the Exhausted view, pressing Start Over
  clears the finished flag and sets the Local Queue to \<^verbatim>\<open>party.restaurants\<close>; every other
  cell of the component keeps its value, and the handler itself sends nothing. The
  render that follows sends one request-more exactly when \<^verbatim>\<open>party.restaurants\<close> holds
  exactly three restaurants and is another array than the Local Queue before the press,
  and nothing otherwise. When that render completes it has appended no batch: the Local
  Queue is exactly \<^verbatim>\<open>party.restaurants\<close>, without the \<^verbatim>\<open>current\<close> batches merged before, and
  the finished flag is still clear.
\<close>

theorem start_over_then_render:
  assumes "view (fst (tick props inst0)) = Inr Exhausted"
  shows "fst (start_over props (snd (tick props inst0))) = [] \<and>
     snd (start_over props (snd (tick props inst0))) =
       (snd (tick props inst0))\<lparr>finished := False,
          restaurants := opt_chain (party props) party_restaurants\<rparr> \<and>
     sent (fst (tick props (snd (start_over props (snd (tick props inst0)))))) =
       (if \<exists>a. opt_chain (party props) party_restaurants = Some a \<and> length (val_of a) = 3 \<and>
             map_option addr_of (restaurants (snd (tick props inst0))) \<noteq> Some (addr_of a)
        then [Request_more] else []) \<and>
     (view (fst (tick props (snd (start_over props (snd (tick props inst0)))))) = Inr v \<longrightarrow>
        restaurants (snd (tick props (snd (start_over props (snd (tick props inst0)))))) =
          opt_chain (party props) party_restaurants \<and>
        finished (snd (tick props (snd (start_over props (snd (tick props inst0)))))) = False)"
proof -
  let ?inst = "snd (tick props inst0)"
  let ?so = "snd (start_over props ?inst)"
  have so: "?so = ?inst\<lparr>finished := False, restaurants := opt_chain (party props) party_restaurants\<rparr>"
    by (simp add: start_over_def setRestaurants_def setFinished_def)
  have "JSON_stringify (party_current (val_of (previous ?inst))) =
      JSON_stringify (opt_chain (party props) party_current)"
    using assms by (rule tick_previous_current)
  then have "JSON_stringify (party_current (val_of (previous ?so))) =
      JSON_stringify (opt_chain (party props) party_current)"
    by (simp add: so)
  then have no: "\<not> rerender (fst (commit props ?so))"
    by (rule commit_same_current)
  then have r: "restaurants (snd (tick props ?so)) = opt_chain (party props) party_restaurants"
    by (simp add: tick_restaurants commit_no_rerender so)
  have f: "finished (snd (tick props ?so)) = False"
    by (simp add: tick_finished so)
  have h: "fst (start_over props ?inst) = []"
    by (simp add: start_over_def)
  have deps: "request_deps ?so = Some (map_option addr_of (restaurants ?inst), ws props)"
    using tick_request_deps_settled[OF assms] by (simp add: so)
  have "sent (fst (tick props ?so)) = sent (fst (commit props ?so))"
    using no by (simp add: tick_sent)
  also have "\<dots> =
      (if (\<exists>a. restaurants ?so = Some a \<and> length (val_of a) = 3) \<and>
          request_deps ?so \<noteq> Some (map_option addr_of (restaurants ?so), ws props)
       then [Request_more] else [])"
    by (rule commit_sent_three)
  also have "\<dots> =
      (if \<exists>a. opt_chain (party props) party_restaurants = Some a \<and> length (val_of a) = 3 \<and>
             map_option addr_of (restaurants ?inst) \<noteq> Some (addr_of a)
        then [Request_more] else [])"
    unfolding deps by (auto simp add: so)
  finally show ?thesis
    using so r f h by simp
qed

theorem start_over_then_render_witness:
  "view (fst (tick exhausting_push mounted_then_swiped)) = Inr Exhausted \<and>
   queue_items (snd (tick exhausting_push mounted_then_swiped)) =
     [rest_b, rest_c, rest_d, rest_a] \<and>
   fst (start_over exhausting_push (snd (tick exhausting_push mounted_then_swiped))) = [] \<and>
   sent (fst (tick exhausting_push
     (snd (start_over exhausting_push (snd (tick exhausting_push mounted_then_swiped)))))) = [] \<and>
   restaurants (snd (tick exhausting_push
     (snd (start_over exhausting_push (snd (tick exhausting_push mounted_then_swiped)))))) =
     Some (Obj (External 2) [rest_a, rest_b, rest_c, rest_d]) \<and>
   finished (snd (tick exhausting_push
     (snd (start_over exhausting_push (snd (tick exhausting_push mounted_then_swiped)))))) =
     False"
proof -
  let ?I = "snd (tick exhausting_push mounted_then_swiped)"
  let ?S = "snd (start_over exhausting_push ?I)"
  have h: "view (fst (tick exhausting_push mounted_then_swiped)) = Inr Exhausted"
    by (simp add: eval_defs)
  have q: "queue_items ?I = [rest_b, rest_c, rest_d, rest_a]"
    by (simp add: eval_defs)
  have c: "opt_chain (party exhausting_push) party_restaurants =
      Some (Obj (External 2) [rest_a, rest_b, rest_c, rest_d])"
    by (simp add: exhausting_push_def snapshot_def active_party_def opt_chain_def)
  have v: "view (fst (tick exhausting_push ?S)) = Inr Exhausted"
    by (simp add: eval_defs)
  note t = start_over_then_render [OF h, where v = Exhausted]
  have a: "fst (start_over exhausting_push ?I) = []"
    using t by (elim conjE)
  have s: "sent (fst (tick exhausting_push ?S)) = []"
    using t [THEN conjunct2, THEN conjunct2, THEN conjunct1] by (simp add: c)
  have r: "restaurants (snd (tick exhausting_push ?S)) =
      Some (Obj (External 2) [rest_a, rest_b, rest_c, rest_d]) \<and>
      finished (snd (tick exhausting_push ?S)) = False"
    using t [THEN conjunct2, THEN conjunct2, THEN conjunct2, rule_format, OF v]
    by (simp only: c)
  from h q a s r show ?thesis by (simp only: simp_thms)
qed

text \<open>
  The claim as stated fails: the user has swiped through a party of three restaurants,
  so the Exhausted view is shown; Start Over sends nothing itself, and the render that
  follows sends request-more.
\<close>

theorem start_over_sends_request_more_counterexample:
  "view (fst (tick (snapshot 10 (active_party [rest_b, rest_c, rest_d] 3)) swiped_through)) =
     Inr Exhausted \<and>
   fst (start_over (snapshot 10 (active_party [rest_b, rest_c, rest_d] 3))
     (snd (tick (snapshot 10 (active_party [rest_b, rest_c, rest_d] 3)) swiped_through))) = [] \<and>
   sent (fst (tick (snapshot 10 (active_party [rest_b, rest_c, rest_d] 3))
     (snd (start_over (snapshot 10 (active_party [rest_b, rest_c, rest_d] 3))
       (snd (tick (snapshot 10 (active_party [rest_b, rest_c, rest_d] 3)) swiped_through)))))) =
     [Request_more]"
  by (simp add: eval_defs)

subsection \<open>C10: a batch that arrives before the Local Queue exists\<close>

text \<open>
  C10. While the Local Queue is undefined, a pushed Party leaves it undefined, whatever
  batch its \<^verbatim>\<open>current\<close> carries, and no effect sets state. The batch is not kept for
  later: once the render has completed, when a child then sets the Local Queue to an
  array \<open>a\<close>, the render of the same Party that follows leaves the queue at \<open>a\<close>.
\<close>

theorem unseeded_batch_dropped:
  assumes "restaurants inst = None" and "view (fst (tick props inst)) = Inr v"
  shows "\<not> rerender (fst (commit props inst)) \<and>
     restaurants (snd (tick props inst)) = None \<and>
     restaurants (snd (tick props (setRestaurants (Some a) (snd (tick props inst))))) = Some a"
proof -
  have no: "\<not> rerender (fst (commit props inst))"
    using commit_rerender[of props inst] assms(1) by auto
  then have none: "restaurants (snd (tick props inst)) = None"
    using assms(1) by (simp add: tick_restaurants commit_no_rerender)
  let ?s = "setRestaurants (Some a) (snd (tick props inst))"
  have "JSON_stringify (party_current (val_of (previous ?s))) =
      JSON_stringify (opt_chain (party props) party_current)"
    using tick_previous_current[OF assms(2)] by (simp add: setRestaurants_def)
  then have "\<not> rerender (fst (commit props ?s))"
    by (rule commit_same_current)
  then have "restaurants (snd (tick props ?s)) = Some a"
    by (simp add: tick_restaurants commit_no_rerender setRestaurants_def)
  with no none show ?thesis by simp
qed

theorem unseeded_batch_dropped_witness:
  "restaurants (initial_instance (Obj (External 0) empty_Party)) = None \<and>
   batch (party (snapshot 10
      ((active_party [rest_a] 2)\<lparr>party_current := Some (Obj (External 11) [rest_b])\<rparr>))) =
     [rest_b] \<and>
   JSON_stringify (party_current (val_of (previous
      (initial_instance (Obj (External 0) empty_Party))))) \<noteq>
     JSON_stringify (opt_chain (party (snapshot 10
      ((active_party [rest_a] 2)\<lparr>party_current := Some (Obj (External 11) [rest_b])\<rparr>)))
      party_current) \<and>
   restaurants (snd (tick (snapshot 10
      ((active_party [rest_a] 2)\<lparr>party_current := Some (Obj (External 11) [rest_b])\<rparr>))
      (initial_instance (Obj (External 0) empty_Party)))) = None \<and>
   restaurants (snd (tick (snapshot 10
      ((active_party [rest_a] 2)\<lparr>party_current := Some (Obj (External 11) [rest_b])\<rparr>))
      (setRestaurants (Some (Obj (External 30) [rest_a]))
        (snd (tick (snapshot 10
          ((active_party [rest_a] 2)\<lparr>party_current := Some (Obj (External 11) [rest_b])\<rparr>))
          (initial_instance (Obj (External 0) empty_Party))))))) =
     Some (Obj (External 30) [rest_a])"
proof -
  let ?P = "snapshot 10
      ((active_party [rest_a] 2)\<lparr>party_current := Some (Obj (External 11) [rest_b])\<rparr>)"
  let ?I = "initial_instance (Obj (External 0) empty_Party)"
  have h1: "restaurants ?I = None" by (simp add: initial_instance_def)
  have h2: "view (fst (tick ?P ?I)) = Inr (Active (Obj (External 2) [rest_a]))"
    by (simp add: eval_defs)
  have b: "batch (party ?P) = [rest_b]"
    by (simp add: snapshot_def active_party_def opt_chain_def batch_def)
  have d: "JSON_stringify (party_current (val_of (previous ?I))) \<noteq>
     JSON_stringify (opt_chain (party ?P) party_current)"
    by (simp add: snapshot_def active_party_def opt_chain_def initial_instance_def empty_Party_def
        JSON_stringify_def)
  show ?thesis
    using h1 b d unseeded_batch_dropped [OF h1 h2, where a = "Obj (External 30) [rest_a]"]
    by simp
qed

end
